theory Spec2Isabelle
  imports Complex_Main "HOL-Library.Sublist" "HOL-Library.AList"
begin

section \<open>Scoring of a temperature condition (score\_temp.py)\<close>

text \<open>
  The script \<^verbatim>\<open>src/lib/score_temp.py\<close> is embedded function by function. Python
  strings are \<open>string\<close> (ASCII text), Python floats are idealised as \<open>real\<close>
  (no rounding, no NaN, no infinities), dictionaries are association lists in insertion
  order, and every \<^verbatim>\<open>raise\<close> or \<^verbatim>\<open>sys.exit\<close> is a value of \<open>error\<close>.
\<close>

subsection \<open>Errors and output\<close>

datatype error =
    SysExit string
  | KeyError string
  | ValueError
  | IndexError
  | ZeroDivisionError

text \<open>What \<^verbatim>\<open>print\<close> sends to standard output: a text, or a number.\<close>

datatype printed = Text string | Num real

text \<open>What is written to the file of \<^verbatim>\<open>--out-single\<close>: the header
  \<^verbatim>\<open>"name\tscore\n"\<close> or a line \<^verbatim>\<open>"%s\t%f\n" % (oligo_name, score)\<close>.\<close>

datatype fline = Header | ProbeLine string real

subsection \<open>String operations of Python used by the script\<close>

definition TAB :: char where
  "TAB = CHR 0x09"

definition NL :: char where
  "NL = CHR 0x0A"

definition CR :: char where
  "CR = CHR 0x0D"

text \<open>\<^verbatim>\<open>str.isspace\<close> on an ASCII character.\<close>

definition is_space :: "char \<Rightarrow> bool" where
  "is_space c = (c \<in> set [CHR 0x09, CHR 0x0A, CHR 0x0B, CHR 0x0C, CHR 0x0D,
                            CHR 0x1C, CHR 0x1D, CHR 0x1E, CHR 0x1F, CHR 0x20])"

text \<open>\<^verbatim>\<open>s.strip()\<close>\<close>

definition strip :: "string \<Rightarrow> string" where
  "strip s = rev (dropWhile is_space (rev (dropWhile is_space s)))"

text \<open>\<^verbatim>\<open>s.split()\<close>: the maximal runs of non-whitespace characters.\<close>

fun split_ws_acc :: "string \<Rightarrow> string \<Rightarrow> string list" where
  "split_ws_acc acc [] = (if acc = [] then [] else [acc])"
| "split_ws_acc acc (c # cs) =
     (if is_space c
      then (if acc = [] then split_ws_acc [] cs else acc # split_ws_acc [] cs)
      else split_ws_acc (acc @ [c]) cs)"

definition split_ws :: "string \<Rightarrow> string list" where
  "split_ws s = split_ws_acc [] s"

text \<open>\<^verbatim>\<open>s.split(sep)\<close> for a non-empty separator: the pieces between the
  occurrences of \<open>sep\<close>, found from the left, not overlapping. Python raises
  ValueError on the empty separator.\<close>

fun split_acc :: "string \<Rightarrow> string \<Rightarrow> string \<Rightarrow> string list" where
  "split_acc sep acc [] = [acc]"
| "split_acc sep acc (c # cs) =
     (if sep \<noteq> [] \<and> prefix sep (c # cs)
      then acc # split_acc sep [] (drop (length sep - 1) cs)
      else split_acc sep (acc @ [c]) cs)"

definition py_split :: "string \<Rightarrow> string \<Rightarrow> error + string list" where
  "py_split sep s = (if sep = [] then Inl ValueError else Inr (split_acc sep [] s))"

text \<open>\<^verbatim>\<open>sep in s\<close>\<close>

fun str_contains :: "string \<Rightarrow> string \<Rightarrow> bool" where
  "str_contains sep [] = (sep = [])"
| "str_contains sep (c # cs) = (prefix sep (c # cs) \<or> str_contains sep cs)"

text \<open>The lines that \<^verbatim>\<open>for row in fin\<close> yields. The file is opened in text mode
  with universal newlines: a line ends at LF, at CR LF and at a CR alone, and each of the
  three is handed over as LF; the last line may lack a terminator.\<close>

fun file_lines_acc :: "string \<Rightarrow> string \<Rightarrow> string list" where
  "file_lines_acc acc [] = (if acc = [] then [] else [acc])"
| "file_lines_acc acc [c] = (if c = NL \<or> c = CR then [acc @ [NL]] else [acc @ [c]])"
| "file_lines_acc acc (c # d # ds) =
     (if c = NL then (acc @ [NL]) # file_lines_acc [] (d # ds)
      else if c = CR
      then (if d = NL then (acc @ [NL]) # file_lines_acc [] ds
            else (acc @ [NL]) # file_lines_acc [] (d # ds))
      else file_lines_acc (acc @ [c]) (d # ds))"

definition file_lines :: "string \<Rightarrow> string list" where
  "file_lines content = file_lines_acc [] content"

subsection \<open>Table Reader: \<^verbatim>\<open>read_tsv\<close>\<close>

text \<open>A row is a dictionary from field name to text, in insertion order.\<close>

type_synonym row = "(string \<times> string) list"

text \<open>The file system: the content of each path that exists.\<close>

type_synonym files = "string \<Rightarrow> string option"

definition delim_tsv :: string where
  "delim_tsv = [TAB]"

text \<open>\<^verbatim>\<open>rowd = {}; for i in range(len(first_row)): rowd[first_row[i]] = row[i]\<close>,
  called only with \<open>length row = length first_row\<close>.\<close>

definition mk_row :: "string list \<Rightarrow> string list \<Rightarrow> row" where
  "mk_row first_row r = foldl (\<lambda>rowd (f, v). AList.update f v rowd) [] (zip first_row r)"

text \<open>The loop over the lines, with its two locals \<open>first_row\<close> and \<open>out\<close>; the
  result is what was printed and what was returned.\<close>

fun read_loop :: "string \<Rightarrow> string list \<Rightarrow> row list \<Rightarrow> string list
    \<Rightarrow> printed list \<times> row list" where
  "read_loop path first_row out [] = ([], out)"
| "read_loop path first_row out (row # rest) =
     (if 0 = length first_row
      then read_loop path (split_acc delim_tsv [] (strip row)) out rest
      else (let r = split_ws (strip row) in
            if \<not> length r = length first_row
            then ([Text (''ERROR! Variable column number found in '' @ path)], [])
            else read_loop path first_row (out @ [mk_row first_row r]) rest))"

definition read_tsv :: "files \<Rightarrow> string \<Rightarrow> printed list \<times> row list" where
  "read_tsv fs path =
     (case fs path of
        None \<Rightarrow> ([], [])
      | Some content \<Rightarrow> read_loop path [] [] (file_lines content))"

subsection \<open>Table Aggregator: \<^verbatim>\<open>reparse_tsv_list\<close>\<close>

text \<open>The aggregated dictionary: identifier to the rows of that identifier, in the
  order in which the identifiers were first met.\<close>

type_synonym groups = "(string \<times> row list) list"

text \<open>\<^verbatim>\<open>if delim in d[k]: d[k] = d[k].split(delim)[0]\<close>: the row after the
  assignment. The row is updated in place, so the row that is stored in the
  group is the updated one.\<close>

definition truncate_key :: "string \<Rightarrow> string \<Rightarrow> row \<Rightarrow> error + row" where
  "truncate_key k delim d =
     (case map_of d k of
        None \<Rightarrow> Inl (KeyError k)
      | Some v \<Rightarrow>
          if str_contains delim v
          then (case py_split delim v of
                  Inl e \<Rightarrow> Inl e
                | Inr [] \<Rightarrow> Inl IndexError
                | Inr (p # ps) \<Rightarrow> Inr (AList.update k p d))
          else Inr d)"

text \<open>\<^verbatim>\<open>if d[k] in outd.keys(): outd[d[k]].append(d) else: outd[d[k]] = [d]\<close>\<close>

definition store_row :: "string \<Rightarrow> row \<Rightarrow> groups \<Rightarrow> error + groups" where
  "store_row k d outd =
     (case map_of d k of
        None \<Rightarrow> Inl (KeyError k)
      | Some i \<Rightarrow>
          (case map_of outd i of
             Some g \<Rightarrow> Inr (AList.update i (g @ [d]) outd)
           | None \<Rightarrow> Inr (AList.update i [d] outd)))"

definition key_msg :: "string \<Rightarrow> string" where
  "key_msg k = ''ERROR! Not all the items contain the aggregation key '' @ [CHR 0x27] @ k @ [CHR 0x27]"

fun reparse_loop :: "string \<Rightarrow> string \<Rightarrow> groups \<Rightarrow> row list \<Rightarrow> error + groups" where
  "reparse_loop k delim outd [] = Inr outd"
| "reparse_loop k delim outd (d # l) =
     (if k \<notin> set (map fst d) then Inl (SysExit (key_msg k))
      else (case truncate_key k delim d of
              Inl e \<Rightarrow> Inl e
            | Inr d' \<Rightarrow>
                (case store_row k d' outd of
                   Inl e \<Rightarrow> Inl e
                 | Inr outd' \<Rightarrow> reparse_loop k delim outd' l)))"

definition reparse_tsv_list :: "row list \<Rightarrow> string \<Rightarrow> string \<Rightarrow> error + groups" where
  "reparse_tsv_list l k delim = reparse_loop k delim [] l"

subsection \<open>The m-value expression\<close>

text \<open>The two regular expressions of \<open>mregex\<close> are sequences of three kinds of
  items: an optional character of a class, a greedy repetition of a class, and one
  character of a class. \<open>match_here\<close> is the backtracking matcher of \<^verbatim>\<open>re\<close> at a
  fixed start (longest alternative first); it returns the text matched by each item.\<close>

datatype item = Opt "char \<Rightarrow> bool" | Star "char \<Rightarrow> bool" | One "char \<Rightarrow> bool"

fun match_here :: "item list \<Rightarrow> string \<Rightarrow> string list option" where
  "match_here [] s = Some []"
| "match_here (One p # ps) [] = None"
| "match_here (One p # ps) (c # cs) =
     (if p c then map_option ((#) [c]) (match_here ps cs) else None)"
| "match_here (Opt p # ps) [] = map_option ((#) []) (match_here ps [])"
| "match_here (Opt p # ps) (c # cs) =
     (case (if p c then map_option ((#) [c]) (match_here ps cs) else None) of
        Some r \<Rightarrow> Some r
      | None \<Rightarrow> map_option ((#) []) (match_here ps (c # cs)))"
| "match_here (Star p # ps) [] = map_option ((#) []) (match_here ps [])"
| "match_here (Star p # ps) (c # cs) =
     (case (if p c
            then (case match_here (Star p # ps) cs of
                    Some (m # ms) \<Rightarrow> Some ((c # m) # ms)
                  | _ \<Rightarrow> None)
            else None) of
        Some r \<Rightarrow> Some r
      | None \<Rightarrow> map_option ((#) []) (match_here ps (c # cs)))"

text \<open>\<^verbatim>\<open>re.search\<close>: the match at the leftmost start that has one.\<close>

fun re_search :: "item list \<Rightarrow> string \<Rightarrow> string list option" where
  "re_search ps [] = match_here ps []"
| "re_search ps (c # cs) =
     (case match_here ps (c # cs) of
        Some r \<Rightarrow> Some r
      | None \<Rightarrow> re_search ps cs)"

definition is_sign :: "char \<Rightarrow> bool" where
  "is_sign c = (c = CHR ''+'' \<or> c = CHR ''-'')"

definition is_digit :: "char \<Rightarrow> bool" where
  "is_digit c = (c \<in> set ''0123456789'')"

text \<open>The class \<^verbatim>\<open>[0-9\.]\<close>\<close>

definition is_digdot :: "char \<Rightarrow> bool" where
  "is_digdot c = (is_digit c \<or> c = CHR ''.'')"

text \<open>\<^verbatim>\<open>"(([+-]?[0-9\.]*)L([+-][0-9\.]*))"\<close> and \<^verbatim>\<open>"([+-]?[0-9\.]*)"\<close>\<close>

definition mregex0 :: "item list" where
  "mregex0 = [Opt is_sign, Star is_digdot, One (\<lambda>c. c = CHR ''L''), One is_sign, Star is_digdot]"

definition mregex1 :: "item list" where
  "mregex1 = [Opt is_sign, Star is_digdot]"

text \<open>The two lambdas bound to \<open>mvalue\<close>. They keep the matched groups as text:
  \<^verbatim>\<open>float\<close> is applied when the lambda is called, not when it is built.\<close>

datatype mval = MLinear string string | MConst string

definition usage_msg :: string where
  "usage_msg = ''!!!ERROR! Unexpected formamide m-value format Check help page.''"

text \<open>"Search for xL+y m-value format": the lambda that is built, if one is.\<close>

definition search_linear :: "string \<Rightarrow> mval option" where
  "search_linear fa_mval_s =
     (case re_search mregex0 fa_mval_s of
        Some [a, b, l, c, d] \<Rightarrow>
          if fa_mval_s = a @ b @ l @ c @ d then Some (MLinear (a @ b) (c @ d)) else None
      | _ \<Rightarrow> None)"

text \<open>"Search for x m-value format", which runs when \<open>parsed_mval\<close> is still false.\<close>

definition search_const :: "string \<Rightarrow> mval option" where
  "search_const fa_mval_s =
     (case re_search mregex1 fa_mval_s of
        Some [a, b] \<Rightarrow> if fa_mval_s = a @ b then Some (MConst (a @ b)) else None
      | _ \<Rightarrow> None)"

text \<open>The three steps, the last being "Trigger error otherwise".\<close>

definition parse_mval :: "string \<Rightarrow> error + mval" where
  "parse_mval fa_mval_s =
     (case search_linear fa_mval_s of
        Some mv \<Rightarrow> Inr mv
      | None \<Rightarrow>
          (case search_const fa_mval_s of
             Some mv \<Rightarrow> Inr mv
           | None \<Rightarrow> Inl (SysExit usage_msg)))"

text \<open>\<^verbatim>\<open>float(x)\<close> on a text, for a given reading \<open>flt\<close> of float literals
  (\<open>None\<close> where \<^verbatim>\<open>float\<close> raises ValueError).\<close>

definition py_float :: "(string \<Rightarrow> real option) \<Rightarrow> string \<Rightarrow> error + real" where
  "py_float flt x = (case flt x of None \<Rightarrow> Inl ValueError | Some v \<Rightarrow> Inr v)"

text \<open>Calling \<open>mvalue\<close>:
  \<^verbatim>\<open>lambda x: float(mgroups[1]) * x + float(mgroups[2])\<close> and
  \<^verbatim>\<open>lambda x: float(mgroup)\<close>.\<close>

fun mvalue :: "(string \<Rightarrow> real option) \<Rightarrow> mval \<Rightarrow> real \<Rightarrow> error + real" where
  "mvalue flt (MLinear g1 g2) x =
     (case py_float flt g1 of
        Inl e \<Rightarrow> Inl e
      | Inr a \<Rightarrow> (case py_float flt g2 of Inl e \<Rightarrow> Inl e | Inr b \<Rightarrow> Inr (a * x + b)))"
| "mvalue flt (MConst g) x = py_float flt g"

subsection \<open>The melting library\<close>

text \<open>The functions of \<^verbatim>\<open>oligo_melting.lib.meltlib\<close> are not part of this
  repository; the script is embedded for an arbitrary library \<open>lib\<close>. Each function
  may raise (it calls \<open>mvalue\<close>, which may), and a curve is a list of
  (temperature, fraction) samples.\<close>

record meltlib =
  duMelt_ion_adj :: "real \<Rightarrow> real \<Rightarrow> real \<Rightarrow> real \<Rightarrow> real \<Rightarrow> error + real"
  duMelt_fa_adj :: "real \<Rightarrow> real \<Rightarrow> real \<Rightarrow> string \<Rightarrow> real \<Rightarrow> real \<Rightarrow> string
    \<Rightarrow> (real \<Rightarrow> error + real) \<Rightarrow> string \<Rightarrow> real \<Rightarrow> error + real"
  duMelt_curve :: "string \<Rightarrow> real \<Rightarrow> real \<Rightarrow> real \<Rightarrow> real \<Rightarrow> string
    \<Rightarrow> (real \<Rightarrow> error + real) \<Rightarrow> real \<Rightarrow> real \<Rightarrow> real \<Rightarrow> real \<Rightarrow> real \<Rightarrow> real \<Rightarrow> string
    \<Rightarrow> error + (real \<times> real) list"
  ssMelt_fa_adj :: "real \<Rightarrow> real \<Rightarrow> real \<Rightarrow> error + real"
  ssMelt_curve :: "real \<Rightarrow> real \<Rightarrow> real \<Rightarrow> real \<Rightarrow> real \<Rightarrow> real \<Rightarrow> error + (real \<times> real) list"

text \<open>The contract of the two curve evaluators: every fraction is in \<open>[0, 1]\<close>.\<close>

definition fractions_in_unit :: "meltlib \<Rightarrow> bool" where
  "fractions_in_unit lib =
     ((\<forall>seq oc na mg fa fm mv fgc dh ds tt z st dt c.
         duMelt_curve lib seq oc na mg fa fm mv fgc dh ds tt z st dt = Inr c
           \<longrightarrow> (\<forall>p \<in> set c. 0 \<le> snd p \<and> snd p \<le> 1)) \<and>
      (\<forall>dh ds tt fa z st c.
         ssMelt_curve lib dh ds tt fa z st = Inr c
           \<longrightarrow> (\<forall>p \<in> set c. 0 \<le> snd p \<and> snd p \<le> 1)))"

subsection \<open>The command line\<close>

record args =
  tin_path :: string
  sin_path :: string
  temp :: real
  dtype :: string
  oligo_conc :: real
  na_conc :: real
  mg_conc :: real
  fa_conc :: real
  fa_mode :: string
  fa_mval_s :: string
  outfile :: "string option"

subsection \<open>Scoring one oligo\<close>

definition seq :: "error + 'a \<Rightarrow> ('a \<Rightarrow> error + 'b) \<Rightarrow> error + 'b" where
  "seq m f = (case m of Inl e \<Rightarrow> Inl e | Inr x \<Rightarrow> f x)"

text \<open>\<^verbatim>\<open>d[k]\<close> on a dictionary and \<^verbatim>\<open>xs[0]\<close> on a list.\<close>

definition getitem :: "(string \<times> 'v) list \<Rightarrow> string \<Rightarrow> error + 'v" where
  "getitem d k = (case map_of d k of None \<Rightarrow> Inl (KeyError k) | Some v \<Rightarrow> Inr v)"

definition first :: "'a list \<Rightarrow> error + 'a" where
  "first xs = (case xs of [] \<Rightarrow> Inl IndexError | x # _ \<Rightarrow> Inr x)"

text \<open>\<^verbatim>\<open>s.upper()\<close> on ASCII text.\<close>

definition upper_char :: "char \<Rightarrow> char" where
  "upper_char c =
     (let n = (of_char c :: nat) in if 97 \<le> n \<and> n \<le> 122 then char_of (n - 32) else c)"

definition upper :: "string \<Rightarrow> string" where
  "upper s = map upper_char s"

text \<open>\<^verbatim>\<open>(seq.count('G') + seq.count('C')) / (len(seq) + 0.)\<close>\<close>

definition gc_fraction :: "string \<Rightarrow> error + real" where
  "gc_fraction sq =
     (if length sq = 0 then Inl ZeroDivisionError
      else Inr (real (count_list sq (CHR ''G'') + count_list sq (CHR ''C'')) / real (length sq)))"

text \<open>The section "Target" of the loop body: the value of \<open>tf\<close> after
  \<^verbatim>\<open>tf = tf[0][1]\<close>.\<close>

definition target_fraction :: "(string \<Rightarrow> real option) \<Rightarrow> meltlib \<Rightarrow> args \<Rightarrow> mval
    \<Rightarrow> groups \<Rightarrow> string \<Rightarrow> error + real" where
  "target_fraction flt lib a mv t oligo_name =
     seq (seq (seq (seq (getitem t oligo_name) first) (\<lambda>r. getitem r ''dH'')) (py_float flt)) (\<lambda>tdh.
     seq (seq (seq (seq (getitem t oligo_name) first) (\<lambda>r. getitem r ''dS'')) (py_float flt)) (\<lambda>tds.
     seq (seq (seq (getitem t oligo_name) first) (\<lambda>r. getitem r ''Seq'')) (\<lambda>sq0.
     let sq = upper sq0 in
     seq (gc_fraction sq) (\<lambda>fgc.
     seq (duMelt_ion_adj lib (temp a + 273.15) 1 0 fgc (na_conc a)) (\<lambda>ttemp1.
     seq (duMelt_fa_adj lib ttemp1 tdh tds sq (oligo_conc a) 0 (fa_mode a) (mvalue flt mv)
            (dtype a) (fa_conc a)) (\<lambda>ttemp.
     seq (duMelt_curve lib sq (oligo_conc a) (na_conc a) (mg_conc a) (fa_conc a) (fa_mode a)
            (mvalue flt mv) fgc tdh tds ttemp 0 0.1 (dtype a)) (\<lambda>tf.
     seq (first tf) (\<lambda>smp. Inr (snd smp)))))))))"

text \<open>The section "Secondary structure": the value of \<open>sf\<close> after
  \<^verbatim>\<open>sf = sf[0][1]\<close>.\<close>

definition secondary_fraction :: "(string \<Rightarrow> real option) \<Rightarrow> meltlib \<Rightarrow> args
    \<Rightarrow> groups \<Rightarrow> string \<Rightarrow> error + real" where
  "secondary_fraction flt lib a s oligo_name =
     seq (seq (seq (seq (getitem s oligo_name) first) (\<lambda>r. getitem r ''dH'')) (py_float flt)) (\<lambda>sdh.
     seq (seq (seq (seq (getitem s oligo_name) first) (\<lambda>r. getitem r ''dS'')) (py_float flt)) (\<lambda>sds0.
     let sds = sds0 / 1000 in
     seq (ssMelt_fa_adj lib (temp a + 273.15) 0 (fa_conc a)) (\<lambda>stemp.
     seq (ssMelt_curve lib sdh sds stemp (fa_conc a) 0 0.1) (\<lambda>sf.
     seq (first sf) (\<lambda>smp. Inr (snd smp))))))"

text \<open>The section "Calculate score": the locals after \<^verbatim>\<open>score = good\<close>.\<close>

record probe_vals =
  unfold :: real
  folded :: real
  dissoc :: real
  hybrid :: real
  good :: real
  bad :: real
  score :: real

definition calc_score :: "real \<Rightarrow> real \<Rightarrow> probe_vals" where
  "calc_score sf tf =
     (let unfold = sf;
          folded = 1 - unfold;
          dissoc = tf;
          hybrid = 1 - dissoc;
          good = unfold * hybrid;
          bad = (folded + dissoc) - folded * dissoc;
          score = good
      in \<lparr>unfold = unfold, folded = folded, dissoc = dissoc, hybrid = hybrid,
          good = good, bad = bad, score = score\<rparr>)"

definition probe_score :: "(string \<Rightarrow> real option) \<Rightarrow> meltlib \<Rightarrow> args \<Rightarrow> mval
    \<Rightarrow> groups \<Rightarrow> groups \<Rightarrow> string \<Rightarrow> error + probe_vals" where
  "probe_score flt lib a mv t s oligo_name =
     seq (target_fraction flt lib a mv t oligo_name) (\<lambda>tf.
     seq (secondary_fraction flt lib a s oligo_name) (\<lambda>sf.
     Inr (calc_score sf tf)))"

text \<open>The sections "Output if needed" and "Save lowest": the new \<open>min_score\<close> and the
  new content of \<open>fout\<close> (\<open>None\<close> when \<open>doSingleOut\<close> is false).\<close>

definition save_lowest :: "real \<Rightarrow> real \<Rightarrow> real" where
  "save_lowest sc min_score = (if sc \<le> min_score then sc else min_score)"

definition record_score :: "string \<Rightarrow> probe_vals \<Rightarrow> real \<times> fline list option
    \<Rightarrow> real \<times> fline list option" where
  "record_score oligo_name v st =
     (save_lowest (score v) (fst st),
      map_option (\<lambda>w. w @ [ProbeLine oligo_name (score v)]) (snd st))"

text \<open>\<^verbatim>\<open>for oligo_name in t.keys()\<close>: the error that ended the loop, if one did, with
  \<open>min_score\<close> and \<open>fout\<close> as they are then.\<close>

fun score_loop :: "(string \<Rightarrow> real option) \<Rightarrow> meltlib \<Rightarrow> args \<Rightarrow> mval \<Rightarrow> groups \<Rightarrow> groups
    \<Rightarrow> string list \<Rightarrow> real \<times> fline list option \<Rightarrow> error option \<times> real \<times> fline list option" where
  "score_loop flt lib a mv t s [] st = (None, st)"
| "score_loop flt lib a mv t s (oligo_name # names) st =
     (case probe_score flt lib a mv t s oligo_name of
        Inl e \<Rightarrow> (Some e, st)
      | Inr v \<Rightarrow> score_loop flt lib a mv t s names (record_score oligo_name v st))"

text \<open>The state of the loop after the oligos \<open>names\<close> have been scored with the values
  \<open>vs\<close>, from the state \<open>st\<close>: the running minimum, and the file with one more line
  for each of them.\<close>

definition after_scores :: "string list \<Rightarrow> probe_vals list \<Rightarrow> real \<times> fline list option
    \<Rightarrow> real \<times> fline list option" where
  "after_scores names vs st =
     (fold min (map score vs) (fst st),
      map_option (\<lambda>w. w @ map (\<lambda>(p, v). ProbeLine p (score v)) (zip names vs)) (snd st))"

subsection \<open>The script\<close>

record world =
  stdout :: "printed list"
  fout :: "fline list option"

text \<open>\<^verbatim>\<open>reparse_tsv_list(read_tsv(path), 'oligo_name', ',')\<close>\<close>

definition read_table :: "files \<Rightarrow> string \<Rightarrow> printed list \<times> (error + groups)" where
  "read_table fs path =
     (case read_tsv fs path of (p, rows) \<Rightarrow> (p, reparse_tsv_list rows ''oligo_name'' '',''))"

text \<open>\<^verbatim>\<open>open(outfile, 'w')\<close> creates the file or empties it; the header that is
  written next is in the buffer of \<open>fout\<close>.\<close>

definition open_out :: "files \<Rightarrow> string option \<Rightarrow> files \<times> fline list option" where
  "open_out fs out_path =
     (case out_path of None \<Rightarrow> (fs, None) | Some p \<Rightarrow> (fs(p \<mapsto> []), Some [Header]))"

text \<open>The whole run: how it ended (\<open>None\<close>: normally) and what it left.\<close>

definition main :: "(string \<Rightarrow> real option) \<Rightarrow> meltlib \<Rightarrow> files \<Rightarrow> args
    \<Rightarrow> error option \<times> world" where
  "main flt lib fs0 a =
     (case open_out fs0 (outfile a) of (fs, f0) \<Rightarrow>
      (case parse_mval (fa_mval_s a) of
         Inl e \<Rightarrow> (Some e, \<lparr>stdout = [], fout = f0\<rparr>)
       | Inr mv \<Rightarrow>
          (case read_table fs (tin_path a) of
             (p1, Inl e) \<Rightarrow> (Some e, \<lparr>stdout = p1, fout = f0\<rparr>)
           | (p1, Inr t) \<Rightarrow>
              (case read_table fs (sin_path a) of
                 (p2, Inl e) \<Rightarrow> (Some e, \<lparr>stdout = p1 @ p2, fout = f0\<rparr>)
               | (p2, Inr s) \<Rightarrow>
                  (case score_loop flt lib a mv t s (map fst t) (1, f0) of
                     (Some e, m, f) \<Rightarrow> (Some e, \<lparr>stdout = p1 @ p2, fout = f\<rparr>)
                   | (None, m, f) \<Rightarrow> (None, \<lparr>stdout = p1 @ p2 @ [Num m], fout = f\<rparr>))))))"

subsection \<open>The strings that the two regular expressions match as a whole\<close>

text \<open>\<^verbatim>\<open>[+-]?[0-9\.]*\<close>: an optional sign, then digits and dots only (possibly none).\<close>

definition whole_const :: "string \<Rightarrow> bool" where
  "whole_const x =
     (case x of
        [] \<Rightarrow> True
      | c # cs \<Rightarrow> if is_sign c then list_all is_digdot cs else list_all is_digdot x)"

text \<open>\<^verbatim>\<open>[+-]?[0-9\.]*L[+-][0-9\.]*\<close>: such a text, the letter L, a sign, then digits
  and dots only (possibly none).\<close>

definition whole_linear :: "string \<Rightarrow> bool" where
  "whole_linear x =
     (case dropWhile (\<lambda>c. c \<noteq> CHR ''L'') x of
        [] \<Rightarrow> False
      | l # y \<Rightarrow>
          whole_const (takeWhile (\<lambda>c. c \<noteq> CHR ''L'') x) \<and>
          (case y of [] \<Rightarrow> False | c # cs \<Rightarrow> is_sign c \<and> list_all is_digdot cs))"

subsection \<open>Concrete inputs\<close>

text \<open>\<^verbatim>\<open>float\<close> on the decimal literals \<^verbatim>\<open>[+-]digits[.digits]\<close> (at least one digit),
  and \<open>None\<close> on other texts of the shape \<^verbatim>\<open>[+-]?[0-9\.]*\<close>. Python reads more
  literals than these (exponents, \<^verbatim>\<open>inf\<close>, \<^verbatim>\<open>nan\<close>), so the theorems below hold for
  every reading \<open>flt\<close>, and this one is used where a concrete run is evaluated.\<close>

definition digits_val :: "string \<Rightarrow> nat" where
  "digits_val ds = foldl (\<lambda>n c. 10 * n + (of_char c - 48)) 0 ds"

definition dec_float :: "string \<Rightarrow> real option" where
  "dec_float x =
     (let body = (case x of [] \<Rightarrow> [] | c # cs \<Rightarrow> if is_sign c then cs else x);
          neg = (case x of [] \<Rightarrow> False | c # cs \<Rightarrow> c = CHR ''-'');
          ip = takeWhile is_digit body;
          fp = (case dropWhile is_digit body of
                  [] \<Rightarrow> Some []
                | c # cs \<Rightarrow> if c = CHR ''.'' \<and> list_all is_digit cs then Some cs else None)
      in case fp of
           None \<Rightarrow> None
         | Some f \<Rightarrow>
             if ip = [] \<and> f = [] then None
             else Some ((if neg then - 1 else 1) *
                        (real (digits_val ip) + real (digits_val f) / 10 ^ length f)))"

text \<open>A small library that keeps the contract: the duplex is a quarter dissociated; the
  single strand is three quarters unfolded when its entropy argument is above \<open>- 1\<close> and
  half unfolded otherwise; the formamide adjustment calls \<open>mvalue\<close> on the length.\<close>

definition demo_lib :: meltlib where
  "demo_lib =
     \<lparr>duMelt_ion_adj = (\<lambda>t x y fgc na. Inr t),
      duMelt_fa_adj = (\<lambda>t dh ds sq oc z fm mv dt fa.
         seq (mv (real (length sq))) (\<lambda>m. Inr (t - m * fa))),
      duMelt_curve = (\<lambda>sq oc na mg fa fm mv fgc dh ds t z st dt. Inr [(t, 1 / 4)]),
      ssMelt_fa_adj = (\<lambda>t z fa. Inr t),
      ssMelt_curve = (\<lambda>dh ds t fa z st. Inr [(t, if ds < - 1 then 1 / 2 else 3 / 4)])\<rparr>"

text \<open>The tables of the end-to-end example of the specification, with a second oligo
  whose name has a suffix, and a target table with an oligo that the secondary table
  lacks.\<close>

definition demo_target :: string where
  "demo_target =
     ''oligo_name'' @ [TAB] @ ''dH'' @ [TAB] @ ''dS'' @ [TAB] @ ''Seq'' @ [NL] @
     ''p1 -80 -200 GCGCGCGC'' @ [NL] @
     ''p2,v2 -70 -180 ATATGC'' @ [NL]"

definition demo_second :: string where
  "demo_second =
     ''oligo_name'' @ [TAB] @ ''dH'' @ [TAB] @ ''dS'' @ [NL] @
     ''p1 -20 -50'' @ [NL] @
     ''p2 -30 -2000'' @ [NL]"

definition demo_second_short :: string where
  "demo_second_short =
     ''oligo_name'' @ [TAB] @ ''dH'' @ [TAB] @ ''dS'' @ [NL] @
     ''p1 -20 -50'' @ [NL]"

definition demo_files :: files where
  "demo_files =
     [''t.tsv'' \<mapsto> demo_target, ''s.tsv'' \<mapsto> demo_second, ''s1.tsv'' \<mapsto> demo_second_short]"

definition demo_args :: args where
  "demo_args =
     \<lparr>tin_path = ''t.tsv'', sin_path = ''s.tsv'', temp = 37, dtype = ''DNA:DNA'',
      oligo_conc = 25 / 100000000, na_conc = 5 / 100, mg_conc = 0, fa_conc = 35,
      fa_mode = ''mcconaughy'', fa_mval_s = ''0.1734'', outfile = Some ''out.tsv''\<rparr>"

text \<open>The three tables after the aggregation.\<close>

definition demo_t :: groups where
  "demo_t =
     [(''p1'', [[(''oligo_name'', ''p1''), (''dH'', ''-80''), (''dS'', ''-200''), (''Seq'', ''GCGCGCGC'')]]),
      (''p2'', [[(''oligo_name'', ''p2''), (''dH'', ''-70''), (''dS'', ''-180''), (''Seq'', ''ATATGC'')]])]"

definition demo_s :: groups where
  "demo_s =
     [(''p1'', [[(''oligo_name'', ''p1''), (''dH'', ''-20''), (''dS'', ''-50'')]]),
      (''p2'', [[(''oligo_name'', ''p2''), (''dH'', ''-30''), (''dS'', ''-2000'')]])]"

definition demo_s_short :: groups where
  "demo_s_short =
     [(''p1'', [[(''oligo_name'', ''p1''), (''dH'', ''-20''), (''dS'', ''-50'')]])]"

section \<open>Properties\<close>

subsection \<open>Table Reader\<close>

lemma split_acc_not_Nil: "split_acc sep acc s \<noteq> []"
  by (induction s arbitrary: acc) auto

lemma strip_blank: "\<forall>c \<in> set l. is_space c \<Longrightarrow> strip l = []"
proof -
  assume "\<forall>c \<in> set l. is_space c"
  then have h: "dropWhile is_space l = []" by (induction l) auto
  show ?thesis unfolding strip_def h by simp
qed

lemma read_loop_data:
  "first_row \<noteq> [] \<Longrightarrow>
   read_loop path first_row out ls =
     (if \<forall>r \<in> set ls. length (split_ws (strip r)) = length first_row
      then ([], out @ map (\<lambda>r. mk_row first_row (split_ws (strip r))) ls)
      else ([Text (''ERROR! Variable column number found in '' @ path)], []))"
  by (induction ls arbitrary: out) (auto simp: Let_def)

text \<open>
  Claim C5, as amended. The first line of the file, empty or not, gives the field names:
  it is stripped and split on the tab. Every later line is stripped and split on
  whitespace, and the rows are returned when all of them have as many tokens as the first
  line has fields. A first line of whitespace only is a header with one field, whose name
  is empty.
\<close>

theorem read_tsv_first_line_is_header:
  assumes "fs path = Some content" and "file_lines content = l # ls"
  shows "read_tsv fs path =
           (if \<forall>r \<in> set ls. length (split_ws (strip r)) = length (split_acc delim_tsv [] (strip l))
            then ([], map (\<lambda>r. mk_row (split_acc delim_tsv [] (strip l)) (split_ws (strip r))) ls)
            else ([Text (''ERROR! Variable column number found in '' @ path)], []))
         \<and> ((\<forall>c \<in> set l. is_space c) \<longrightarrow> split_acc delim_tsv [] (strip l) = [[]])"
  using assms read_loop_data [OF split_acc_not_Nil, of path delim_tsv "[]" "strip l" "[]" ls]
  by (simp add: read_tsv_def strip_blank)

theorem read_tsv_first_line_is_header_witness:
  "read_tsv [''f'' \<mapsto> [NL] @ ''a'' @ [TAB] @ ''b'' @ [NL] @ ''1 2'' @ [NL]] ''f''
     = ([Text ''ERROR! Variable column number found in f''], [])"
proof -
  have l: "file_lines ([NL] @ ''a'' @ [TAB] @ ''b'' @ [NL] @ ''1 2'' @ [NL])
             = [NL] # [''a'' @ [TAB] @ ''b'' @ [NL], ''1 2'' @ [NL]]"
    by code_simp
  have h: "split_acc delim_tsv [] (strip [NL]) = [[]]" by code_simp
  have r: "split_ws (strip (''a'' @ [TAB] @ ''b'' @ [NL])) = [''a'', ''b'']" by code_simp
  show ?thesis
    using read_tsv_first_line_is_header [of "[''f'' \<mapsto> [NL] @ ''a'' @ [TAB] @ ''b'' @ [NL] @ ''1 2'' @ [NL]]" "''f''", OF _ l] h r
    by simp
qed

text \<open>
  Claim C5 as stated fails: in the file of the two lines \<open>""\<close> and \<open>"x"\<close> the empty
  first line is the header, and \<open>"x"\<close> is a data row under the empty field name.
\<close>

theorem blank_first_line_counterexample:
  "read_tsv [''f'' \<mapsto> [NL, CHR ''x'', NL]] ''f'' = ([], [[([], ''x'')]])"
  by code_simp

text \<open>
  Claim C6. When some line after the first has a number of tokens that differs from the
  number of fields of the header, \<open>read_tsv\<close> prints the diagnostic and returns the
  empty list, whatever rows it had read.
\<close>

theorem read_tsv_mismatch_discards_all:
  assumes "fs path = Some content" and "file_lines content = h # rest"
    and "\<exists>r \<in> set rest. length (split_ws (strip r)) \<noteq> length (split_acc delim_tsv [] (strip h))"
  shows "read_tsv fs path = ([Text (''ERROR! Variable column number found in '' @ path)], [])"
  using assms read_loop_data [OF split_acc_not_Nil, of path delim_tsv "[]" "strip h" "[]" rest]
  by (auto simp: read_tsv_def)

theorem read_tsv_mismatch_discards_all_witness:
  "read_tsv [''f'' \<mapsto> ''a'' @ [TAB] @ ''b'' @ [NL] @ ''1 2'' @ [NL] @ ''3 4 5'' @ [NL]] ''f''
     = ([Text ''ERROR! Variable column number found in f''], [])"
proof -
  have l: "file_lines (''a'' @ [TAB] @ ''b'' @ [NL] @ ''1 2'' @ [NL] @ ''3 4 5'' @ [NL])
             = (''a'' @ [TAB] @ ''b'' @ [NL]) # [''1 2'' @ [NL], ''3 4 5'' @ [NL]]"
    by code_simp
  have x: "\<exists>r \<in> set [''1 2'' @ [NL], ''3 4 5'' @ [NL]].
             length (split_ws (strip r)) \<noteq> length (split_acc delim_tsv [] (strip (''a'' @ [TAB] @ ''b'' @ [NL])))"
    by code_simp
  show ?thesis
    using read_tsv_mismatch_discards_all [of "[''f'' \<mapsto> ''a'' @ [TAB] @ ''b'' @ [NL] @ ''1 2'' @ [NL] @ ''3 4 5'' @ [NL]]" "''f''", OF _ l x]
    by simp
qed

subsection \<open>Table Aggregator\<close>

lemma split_acc_first:
  "sep \<noteq> [] \<Longrightarrow> str_contains sep s \<Longrightarrow>
   \<exists>p rest more. split_acc sep acc s = (acc @ p) # more \<and> s = p @ sep @ rest \<and>
     (\<forall>q. prefix (q @ sep) s \<longrightarrow> length p \<le> length q)"
proof (induction s arbitrary: acc)
  case Nil
  then show ?case by simp
next
  case (Cons c cs)
  show ?case
  proof (cases "prefix sep (c # cs)")
    case True
    then obtain rest where "c # cs = sep @ rest" by (auto simp: prefix_def)
    then have e: "c # cs = [] @ sep @ rest" by simp
    have s: "split_acc sep acc (c # cs) = (acc @ []) # split_acc sep [] (drop (length sep - 1) cs)"
      using True Cons.prems(1) by simp
    have m: "\<forall>q. prefix (q @ sep) (c # cs) \<longrightarrow> length ([] :: string) \<le> length q" by simp
    from s e m show ?thesis by blast
  next
    case False
    with Cons.prems have "str_contains sep cs" by simp
    from Cons.IH [OF Cons.prems(1) this, of "acc @ [c]"]
    obtain p rest more where s: "split_acc sep (acc @ [c]) cs = (acc @ [c] @ p) # more"
      and e: "cs = p @ sep @ rest"
      and m: "\<forall>q. prefix (q @ sep) cs \<longrightarrow> length p \<le> length q" by auto
    have m': "\<forall>q. prefix (q @ sep) (c # cs) \<longrightarrow> length (c # p) \<le> length q"
    proof (intro allI impI)
      fix q assume q: "prefix (q @ sep) (c # cs)"
      with False obtain q' where "q = c # q'" by (cases q) auto
      with q m show "length (c # p) \<le> length q" by auto
    qed
    have s': "split_acc sep acc (c # cs) = (acc @ (c # p)) # more"
      using s False by simp
    have e': "c # cs = (c # p) @ sep @ rest" using e by simp
    from s' e' m' show ?thesis by blast
  qed
qed

lemma truncate_key_cases:
  assumes "truncate_key k delim d = Inr d'" and "map_of d k = Some v"
  shows "if str_contains delim v
         then \<exists>p rest. v = p @ delim @ rest \<and> delim \<noteq> [] \<and>
                (\<forall>q. prefix (q @ delim) v \<longrightarrow> length p \<le> length q) \<and>
                d' = AList.update k p d
         else d' = d"
proof (cases "str_contains delim v")
  case False
  with assms show ?thesis by (simp add: truncate_key_def)
next
  case True
  with assms have ne: "delim \<noteq> []"
    by (auto simp: truncate_key_def py_split_def split: if_splits)
  from split_acc_first [OF ne True, of "[]"]
  obtain p rest more where "split_acc delim [] v = p # more" "v = p @ delim @ rest"
    "\<forall>q. prefix (q @ delim) v \<longrightarrow> length p \<le> length q" by auto
  with assms True ne show ?thesis
    by (auto simp: truncate_key_def py_split_def)
qed

lemma reparse_loop_char:
  "reparse_loop k delim outd0 l = Inr outd \<Longrightarrow>
   \<exists>l'. list_all2 (\<lambda>d d'. truncate_key k delim d = Inr d') l l' \<and>
     (\<forall>i. map_of outd i =
        (case map_of outd0 i of
           Some g \<Rightarrow> Some (g @ filter (\<lambda>d'. map_of d' k = Some i) l')
         | None \<Rightarrow> if filter (\<lambda>d'. map_of d' k = Some i) l' = [] then None
                   else Some (filter (\<lambda>d'. map_of d' k = Some i) l')))"
proof (induction l arbitrary: outd0)
  case Nil
  then show ?case by (auto split: option.splits)
next
  case (Cons d l)
  from Cons.prems obtain d' outd1 where t: "truncate_key k delim d = Inr d'"
    and s: "store_row k d' outd0 = Inr outd1"
    and r: "reparse_loop k delim outd1 l = Inr outd"
    by (auto split: if_splits sum.splits)
  from s obtain i0 where i0: "map_of d' k = Some i0"
    and o1: "map_of outd1 = (map_of outd0)(i0 \<mapsto> (case map_of outd0 i0 of Some g \<Rightarrow> g @ [d'] | None \<Rightarrow> [d']))"
    by (auto simp: store_row_def update_conv' split: option.splits)
  from Cons.IH [OF r] obtain l' where a: "list_all2 (\<lambda>d d'. truncate_key k delim d = Inr d') l l'"
    and b: "\<forall>i. map_of outd i =
        (case map_of outd1 i of
           Some g \<Rightarrow> Some (g @ filter (\<lambda>d'. map_of d' k = Some i) l')
         | None \<Rightarrow> if filter (\<lambda>d'. map_of d' k = Some i) l' = [] then None
                   else Some (filter (\<lambda>d'. map_of d' k = Some i) l'))" by auto
  have "list_all2 (\<lambda>d d'. truncate_key k delim d = Inr d') (d # l) (d' # l')"
    using a t by simp
  moreover have "\<forall>i. map_of outd i =
        (case map_of outd0 i of
           Some g \<Rightarrow> Some (g @ filter (\<lambda>d'. map_of d' k = Some i) (d' # l'))
         | None \<Rightarrow> if filter (\<lambda>d'. map_of d' k = Some i) (d' # l') = [] then None
                   else Some (filter (\<lambda>d'. map_of d' k = Some i) (d' # l')))"
    using b i0 o1 by (auto split: option.splits)
  ultimately show ?case by blast
qed

lemma reparse_groups:
  assumes "reparse_tsv_list l k delim = Inr outd"
  shows "\<exists>l'. list_all2 (\<lambda>d d'. truncate_key k delim d = Inr d') l l' \<and>
     (\<forall>i g. map_of outd i = Some g \<longleftrightarrow>
        g = filter (\<lambda>d'. map_of d' k = Some i) l' \<and> g \<noteq> [])"
proof -
  from reparse_loop_char [OF assms [unfolded reparse_tsv_list_def]]
  obtain l' where a: "list_all2 (\<lambda>d d'. truncate_key k delim d = Inr d') l l'"
    and b: "\<forall>i. map_of outd i =
      (if filter (\<lambda>d'. map_of d' k = Some i) l' = [] then None
       else Some (filter (\<lambda>d'. map_of d' k = Some i) l'))" by auto
  have "\<forall>i g. map_of outd i = Some g \<longleftrightarrow>
        g = filter (\<lambda>d'. map_of d' k = Some i) l' \<and> g \<noteq> []"
  proof (intro allI)
    fix i g
    show "map_of outd i = Some g \<longleftrightarrow>
        g = filter (\<lambda>d'. map_of d' k = Some i) l' \<and> g \<noteq> []"
      using b [rule_format, of i]
      by (cases "filter (\<lambda>d'. map_of d' k = Some i) l' = []") auto
  qed
  with a show ?thesis by blast
qed


lemma list_all2_left:
  "list_all2 P xs ys \<Longrightarrow> x \<in> set xs \<Longrightarrow> \<exists>y \<in> set ys. P x y"
  by (induction rule: list_all2_induct) auto

lemma list_all2_right:
  "list_all2 P xs ys \<Longrightarrow> y \<in> set ys \<Longrightarrow> \<exists>x \<in> set xs. P x y"
  by (induction rule: list_all2_induct) auto

lemma str_contains_decomp: "str_contains sep s \<Longrightarrow> \<exists>q r. s = q @ sep @ r"
proof (induction s)
  case Nil
  then show ?case by simp
next
  case (Cons c cs)
  show ?case
  proof (cases "prefix sep (c # cs)")
    case True
    then obtain r where "c # cs = [] @ sep @ r" by (auto simp: prefix_def)
    then show ?thesis by blast
  next
    case False
    with Cons obtain q r where "cs = q @ sep @ r" by auto
    then have "c # cs = (c # q) @ sep @ r" by simp
    then show ?thesis by blast
  qed
qed

lemma str_contains_append: "str_contains sep (q @ sep @ r)"
proof (induction q)
  case Nil
  show ?case
  proof (cases "sep @ r")
    case Nil
    then show ?thesis by simp
  next
    case (Cons a list)
    have "prefix sep (sep @ r)" by simp
    with Cons show ?thesis by simp
  qed
next
  case (Cons c q)
  then show ?case by simp
qed

lemma first_occ_unique:
  assumes "v = p @ delim @ r" and "v = p' @ delim @ r'"
    and "\<forall>q. prefix (q @ delim) v \<longrightarrow> length p \<le> length q"
    and "\<forall>q. prefix (q @ delim) v \<longrightarrow> length p' \<le> length q"
  shows "p = p'"
proof -
  have "prefix (p @ delim) ((p @ delim) @ r)" "prefix (p' @ delim) ((p' @ delim) @ r')"
    by (rule prefixI [OF refl])+
  with assms(1,2) have "prefix (p @ delim) v" "prefix (p' @ delim) v" by simp_all
  with assms(3,4) have "length p = length p'" by (simp add: le_antisym)
  with assms(1,2) show ?thesis by (metis append_eq_append_conv)
qed

lemma ident_no_delim:
  assumes "v = p @ delim @ r" and "delim \<noteq> []"
    and "\<forall>q. prefix (q @ delim) v \<longrightarrow> length p \<le> length q"
  shows "\<not> str_contains delim p"
proof
  assume "str_contains delim p"
  then obtain q r' where p: "p = q @ delim @ r'" using str_contains_decomp by blast
  with assms(1) have "prefix (q @ delim) v" by (simp add: prefix_def)
  with assms(3) have "length p \<le> length q" by blast
  with p assms(2) show False by simp
qed

lemma truncate_key_ok:
  assumes "delim \<noteq> []" and "map_of d k = Some v"
  shows "\<exists>d'. truncate_key k delim d = Inr d'"
proof (cases "split_acc delim [] v")
  case Nil
  then show ?thesis using split_acc_not_Nil by blast
next
  case (Cons p ps)
  with assms show ?thesis by (simp add: truncate_key_def py_split_def)
qed

lemma truncate_key_has_key:
  assumes "truncate_key k delim d = Inr d'"
  shows "\<exists>i. map_of d' k = Some i"
proof -
  from assms obtain v where v: "map_of d k = Some v"
    by (auto simp: truncate_key_def split: option.splits)
  from truncate_key_cases [OF assms v] v show ?thesis
    by (cases "str_contains delim v") (auto simp: update_conv')
qed

lemma reparse_loop_ok:
  "delim \<noteq> [] \<Longrightarrow> \<forall>d \<in> set l. k \<in> fst ` set d \<Longrightarrow>
   \<exists>outd. reparse_loop k delim outd0 l = Inr outd"
proof (induction l arbitrary: outd0)
  case Nil
  then show ?case by simp
next
  case (Cons d l)
  from Cons.prems have kd: "k \<in> fst ` set d" by simp
  then obtain v where "map_of d k = Some v"
    by (metis map_of_eq_None_iff not_Some_eq)
  from truncate_key_ok [OF Cons.prems(1) this] obtain d'
    where t: "truncate_key k delim d = Inr d'" by blast
  from truncate_key_has_key [OF t] obtain i where "map_of d' k = Some i" by blast
  then obtain outd1 where s: "store_row k d' outd0 = Inr outd1"
    by (cases "map_of outd0 i") (auto simp: store_row_def)
  from Cons.IH [OF Cons.prems(1), of outd1] Cons.prems(2)
  obtain outd where "reparse_loop k delim outd1 l = Inr outd" by auto
  with kd t s show ?case by simp
qed


lemma reparse_rows:
  assumes "delim \<noteq> []" and "\<forall>d \<in> set l. k \<in> fst ` set d"
  shows "\<exists>outd l'. reparse_tsv_list l k delim = Inr outd \<and>
           list_all2 (\<lambda>d d'. truncate_key k delim d = Inr d') l l' \<and>
           (\<forall>i g. map_of outd i = Some g \<longleftrightarrow>
              g = filter (\<lambda>d'. map_of d' k = Some i) l' \<and> g \<noteq> [])"
proof -
  from reparse_loop_ok [OF assms, of "[]"]
  obtain outd where r: "reparse_tsv_list l k delim = Inr outd"
    by (auto simp: reparse_tsv_list_def)
  from reparse_groups [OF r] r show ?thesis by blast
qed

lemma truncate_key_spec:
  assumes t: "truncate_key k delim d = Inr d'"
  shows "\<exists>v. map_of d k = Some v \<and>
           (\<forall>f. f \<noteq> k \<longrightarrow> map_of d' f = map_of d f) \<and>
           map fst d' = map fst d \<and>
           (if str_contains delim v
            then \<exists>ident rest. v = ident @ delim @ rest \<and>
                   (\<forall>q. prefix (q @ delim) v \<longrightarrow> length ident \<le> length q) \<and>
                   d' = AList.update k ident d \<and> map_of d' k = Some ident \<and> ident \<noteq> v
            else d' = d)"
proof -
  from t obtain v where v: "map_of d k = Some v"
    by (auto simp: truncate_key_def split: option.splits)
  then have kd: "k \<in> fst ` set d" by (metis map_of_eq_None_iff option.distinct(1))
  show ?thesis
  proof (cases "str_contains delim v")
    case False
    with truncate_key_cases [OF t v] v show ?thesis by auto
  next
    case True
    with truncate_key_cases [OF t v]
    obtain p rest where e: "v = p @ delim @ rest" and ne: "delim \<noteq> []"
      and m: "\<forall>q. prefix (q @ delim) v \<longrightarrow> length p \<le> length q"
      and u: "d' = AList.update k p d" by auto
    from e ne have "p \<noteq> v" by auto
    moreover have "\<forall>f. f \<noteq> k \<longrightarrow> map_of d' f = map_of d f"
      using u by (simp add: update_conv')
    moreover have "map fst d' = map fst d" using u kd by (simp add: update_keys)
    moreover have "map_of d' k = Some p" using u by (simp add: update_conv')
    ultimately show ?thesis using v True e m u by auto
  qed
qed

text \<open>
  Claim C9, as amended. For a non-empty delimiter and a table whose rows all have the key
  field, the aggregation succeeds, and the rows after it, \<open>l'\<close>, are the rows before it,
  one for one: a row whose key value contains the delimiter has its key field overwritten
  with the text before the first occurrence of the delimiter, which differs from the old
  value, and has every other field as before; a row whose key value does not contain the
  delimiter is unchanged. The groups of the result hold exactly the rows \<open>l'\<close>, each
  under its key value.
\<close>

theorem aggregate_rewrites_key_only:
  assumes ne: "delim \<noteq> []" and keys: "\<forall>d \<in> set l. k \<in> fst ` set d"
  shows "\<exists>outd l'.
           reparse_tsv_list l k delim = Inr outd \<and>
           (\<forall>i g. map_of outd i = Some g \<longleftrightarrow>
              g = filter (\<lambda>d'. map_of d' k = Some i) l' \<and> g \<noteq> []) \<and>
           list_all2 (\<lambda>d d'. \<exists>v. map_of d k = Some v \<and>
              (\<forall>f. f \<noteq> k \<longrightarrow> map_of d' f = map_of d f) \<and>
              map fst d' = map fst d \<and>
              (if str_contains delim v
               then \<exists>ident rest. v = ident @ delim @ rest \<and>
                      (\<forall>q. prefix (q @ delim) v \<longrightarrow> length ident \<le> length q) \<and>
                      d' = AList.update k ident d \<and> map_of d' k = Some ident \<and> ident \<noteq> v
               else d' = d)) l l'"
proof -
  from reparse_rows [OF ne keys]
  obtain outd l' where r: "reparse_tsv_list l k delim = Inr outd"
    and a: "list_all2 (\<lambda>d d'. truncate_key k delim d = Inr d') l l'"
    and b: "\<forall>i g. map_of outd i = Some g \<longleftrightarrow>
        g = filter (\<lambda>d'. map_of d' k = Some i) l' \<and> g \<noteq> []" by blast
  have "list_all2 (\<lambda>d d'. \<exists>v. map_of d k = Some v \<and>
              (\<forall>f. f \<noteq> k \<longrightarrow> map_of d' f = map_of d f) \<and>
              map fst d' = map fst d \<and>
              (if str_contains delim v
               then \<exists>ident rest. v = ident @ delim @ rest \<and>
                      (\<forall>q. prefix (q @ delim) v \<longrightarrow> length ident \<le> length q) \<and>
                      d' = AList.update k ident d \<and> map_of d' k = Some ident \<and> ident \<noteq> v
               else d' = d)) l l'"
    by (rule list_all2_mono [OF a]) (rule truncate_key_spec)
  with r b show ?thesis by blast
qed

theorem aggregate_rewrites_key_only_witness:
  "(\<exists>outd l'.
           reparse_tsv_list [[(''oligo_name'', ''probe1,v2''), (''dH'', ''-80'')],
                  [(''oligo_name'', ''probe1''), (''dH'', ''-20'')]] ''oligo_name'' '','' = Inr outd \<and>
           (\<forall>i g. map_of outd i = Some g \<longleftrightarrow>
              g = filter (\<lambda>d'. map_of d' ''oligo_name'' = Some i) l' \<and> g \<noteq> []) \<and>
           list_all2 (\<lambda>d d'. \<exists>v. map_of d ''oligo_name'' = Some v \<and>
              (\<forall>f. f \<noteq> ''oligo_name'' \<longrightarrow> map_of d' f = map_of d f) \<and>
              map fst d' = map fst d \<and>
              (if str_contains '','' v
               then \<exists>ident rest. v = ident @ '','' @ rest \<and>
                      (\<forall>q. prefix (q @ '','') v \<longrightarrow> length ident \<le> length q) \<and>
                      d' = AList.update ''oligo_name'' ident d \<and>
                      map_of d' ''oligo_name'' = Some ident \<and> ident \<noteq> v
               else d' = d))
             [[(''oligo_name'', ''probe1,v2''), (''dH'', ''-80'')],
              [(''oligo_name'', ''probe1''), (''dH'', ''-20'')]] l')"
proof -
  have ne: "'','' \<noteq> []" by simp
  have keys: "\<forall>d \<in> set [[(''oligo_name'', ''probe1,v2''), (''dH'', ''-80'')],
                  [(''oligo_name'', ''probe1''), (''dH'', ''-20'')]]. ''oligo_name'' \<in> fst ` set d"
    by simp
  show ?thesis
    by (rule aggregate_rewrites_key_only [OF ne keys])
qed

text \<open>
  Claim C7. For a non-empty delimiter and a table whose rows all have the key field, the
  aggregation succeeds, and a row whose key value \<open>v\<close> contains the delimiter is stored,
  with its key truncated, under the text \<open>ident\<close> before the first occurrence of the
  delimiter in \<open>v\<close>. The group of \<open>ident\<close> holds rows of that identifier only, and it
  holds every row of the table that shares it: the rows whose key value is \<open>ident\<close>
  itself, and the rows whose key value is \<open>ident\<close>, the delimiter and a suffix.
\<close>

theorem aggregate_truncates_key:
  assumes ne: "delim \<noteq> []" and keys: "\<forall>d \<in> set l. k \<in> fst ` set d"
    and d: "d \<in> set l" and v: "map_of d k = Some v" and c: "str_contains delim v"
  shows "\<exists>outd ident rest g.
           reparse_tsv_list l k delim = Inr outd \<and>
           v = ident @ delim @ rest \<and>
           (\<forall>q. prefix (q @ delim) v \<longrightarrow> length ident \<le> length q) \<and>
           map_of outd ident = Some g \<and>
           AList.update k ident d \<in> set g \<and>
           (\<forall>d' \<in> set g. map_of d' k = Some ident) \<and>
           (\<forall>d2 \<in> set l. map_of d2 k = Some ident \<longrightarrow> d2 \<in> set g) \<and>
           (\<forall>d2 \<in> set l. \<forall>rest2. map_of d2 k = Some (ident @ delim @ rest2) \<and>
               (\<forall>q. prefix (q @ delim) (ident @ delim @ rest2) \<longrightarrow> length ident \<le> length q)
               \<longrightarrow> AList.update k ident d2 \<in> set g)"
proof -
  from reparse_rows [OF ne keys]
  obtain outd l' where r: "reparse_tsv_list l k delim = Inr outd"
    and a: "list_all2 (\<lambda>d d'. truncate_key k delim d = Inr d') l l'"
    and b: "\<forall>i g. map_of outd i = Some g \<longleftrightarrow>
        g = filter (\<lambda>d'. map_of d' k = Some i) l' \<and> g \<noteq> []" by blast
  from list_all2_left [OF a d] obtain d' where d': "d' \<in> set l'"
    and t: "truncate_key k delim d = Inr d'" by blast
  from truncate_key_cases [OF t v] c
  obtain p rest where e: "v = p @ delim @ rest"
    and m: "\<forall>q. prefix (q @ delim) v \<longrightarrow> length p \<le> length q"
    and u: "d' = AList.update k p d" by auto
  let ?g = "filter (\<lambda>d'. map_of d' k = Some p) l'"
  have kp: "map_of d' k = Some p" using u by (simp add: update_conv')
  with d' have in_g: "d' \<in> set ?g" by simp
  then have "?g \<noteq> []" by (auto simp: filter_empty_conv)
  with b have g: "map_of outd p = Some ?g" by simp
  have all_p: "\<forall>x \<in> set ?g. map_of x k = Some p" by simp
  have np: "\<not> str_contains delim p" by (rule ident_no_delim [OF e ne m])
  have exact: "\<forall>d2 \<in> set l. map_of d2 k = Some p \<longrightarrow> d2 \<in> set ?g"
  proof (intro ballI impI)
    fix d2 assume d2: "d2 \<in> set l" and k2: "map_of d2 k = Some p"
    from np k2 have "truncate_key k delim d2 = Inr d2" by (simp add: truncate_key_def)
    with list_all2_left [OF a d2] have "d2 \<in> set l'" by auto
    with k2 show "d2 \<in> set ?g" by simp
  qed
  have trunc: "\<forall>d2 \<in> set l. \<forall>rest2. map_of d2 k = Some (p @ delim @ rest2) \<and>
               (\<forall>q. prefix (q @ delim) (p @ delim @ rest2) \<longrightarrow> length p \<le> length q)
               \<longrightarrow> AList.update k p d2 \<in> set ?g"
  proof (intro ballI allI impI)
    fix d2 rest2
    assume d2: "d2 \<in> set l"
      and h: "map_of d2 k = Some (p @ delim @ rest2) \<and>
               (\<forall>q. prefix (q @ delim) (p @ delim @ rest2) \<longrightarrow> length p \<le> length q)"
    from list_all2_left [OF a d2] obtain d2' where in2: "d2' \<in> set l'"
      and t2: "truncate_key k delim d2 = Inr d2'" by blast
    have c2: "str_contains delim (p @ delim @ rest2)" by (rule str_contains_append)
    from truncate_key_cases [OF t2 conjunct1 [OF h]] c2
    obtain p2 r2 where e2: "p @ delim @ rest2 = p2 @ delim @ r2"
      and m2: "\<forall>q. prefix (q @ delim) (p @ delim @ rest2) \<longrightarrow> length p2 \<le> length q"
      and u2: "d2' = AList.update k p2 d2" by auto
    from first_occ_unique [OF refl e2 conjunct2 [OF h] m2] have "p = p2" .
    with u2 in2 show "AList.update k p d2 \<in> set ?g" by (simp add: update_conv')
  qed
  from r e m g in_g all_p exact trunc show ?thesis unfolding u by blast
qed

theorem aggregate_truncates_key_witness:
  "reparse_tsv_list [[(''oligo_name'', ''probe1,v2'')], [(''oligo_name'', ''probe1'')]]
       ''oligo_name'' '','' =
     Inr [(''probe1'', [[(''oligo_name'', ''probe1'')], [(''oligo_name'', ''probe1'')]])] \<and>
   (\<exists>outd ident rest g.
           reparse_tsv_list [[(''oligo_name'', ''probe1,v2'')], [(''oligo_name'', ''probe1'')]]
             ''oligo_name'' '','' = Inr outd \<and>
           ''probe1,v2'' = ident @ '','' @ rest \<and>
           (\<forall>q. prefix (q @ '','') ''probe1,v2'' \<longrightarrow> length ident \<le> length q) \<and>
           map_of outd ident = Some g \<and>
           AList.update ''oligo_name'' ident [(''oligo_name'', ''probe1,v2'')] \<in> set g \<and>
           (\<forall>d' \<in> set g. map_of d' ''oligo_name'' = Some ident) \<and>
           (\<forall>d2 \<in> set [[(''oligo_name'', ''probe1,v2'')], [(''oligo_name'', ''probe1'')]].
              map_of d2 ''oligo_name'' = Some ident \<longrightarrow> d2 \<in> set g) \<and>
           (\<forall>d2 \<in> set [[(''oligo_name'', ''probe1,v2'')], [(''oligo_name'', ''probe1'')]].
              \<forall>rest2. map_of d2 ''oligo_name'' = Some (ident @ '','' @ rest2) \<and>
               (\<forall>q. prefix (q @ '','') (ident @ '','' @ rest2) \<longrightarrow> length ident \<le> length q)
               \<longrightarrow> AList.update ''oligo_name'' ident d2 \<in> set g))"
proof -
  have ne: "'','' \<noteq> []" by simp
  have keys: "\<forall>d \<in> set [[(''oligo_name'', ''probe1,v2'')], [(''oligo_name'', ''probe1'')]].
      ''oligo_name'' \<in> fst ` set d" by simp
  have d: "[(''oligo_name'', ''probe1,v2'')]
             \<in> set [[(''oligo_name'', ''probe1,v2'')], [(''oligo_name'', ''probe1'')]]" by simp
  have v: "map_of [(''oligo_name'', ''probe1,v2'')] ''oligo_name'' = Some ''probe1,v2''" by simp
  have c: "str_contains '','' ''probe1,v2''" by code_simp
  have r: "reparse_tsv_list [[(''oligo_name'', ''probe1,v2'')], [(''oligo_name'', ''probe1'')]]
       ''oligo_name'' '','' =
     Inr [(''probe1'', [[(''oligo_name'', ''probe1'')], [(''oligo_name'', ''probe1'')]])]"
    by code_simp
  show ?thesis
    by (intro conjI, rule r, rule aggregate_truncates_key [OF ne keys d v c])
qed

text \<open>
  Claim C9 as stated fails: the reader gives the second row of the target table the name
  \<open>p2,v2\<close>, and after the aggregation that row has the name \<open>p2\<close>.
\<close>

theorem aggregator_overwrites_key_counterexample:
  "snd (read_tsv demo_files ''t.tsv'') ! 1 =
     [(''oligo_name'', ''p2,v2''), (''dH'', ''-70''), (''dS'', ''-180''), (''Seq'', ''ATATGC'')] \<and>
   snd (read_table demo_files ''t.tsv'') =
     Inr [(''p1'', [[(''oligo_name'', ''p1''), (''dH'', ''-80''), (''dS'', ''-200''), (''Seq'', ''GCGCGCGC'')]]),
          (''p2'', [[(''oligo_name'', ''p2''), (''dH'', ''-70''), (''dS'', ''-180''), (''Seq'', ''ATATGC'')]])]"
  by code_simp

end
